theory Spec2Isabelle
  imports Complex_Main "HOL-Library.AList"
begin

section \<open>The Google Gemini adapter of CopilotKit\<close>

text \<open>
  A shallow embedding of \<^verbatim>\<open>packages/backend/src/lib/google-genai-adapter.ts\<close>:
  the message transcoder (\<^verbatim>\<open>transformMessage\<close>, \<^verbatim>\<open>transformMessages\<close>), the tool
  schema transcoder (\<^verbatim>\<open>transformTool\<close>), the facade \<^verbatim>\<open>getResponse\<close> up to the
  streaming send, and the body of the readable stream's \<^verbatim>\<open>start\<close> callback.

  Exceptions are values: a function that can throw returns \<open>error + 'a\<close>, with \<open>Inl\<close>
  the exception. Mutation of the caller's array is explicit: \<open>getResponse\<close> returns the
  array as it stands afterwards.
\<close>

subsection \<open>Values and host functions\<close>

text \<open>
  The untyped payloads of the source (\<^verbatim>\<open>any\<close>, the result of \<^verbatim>\<open>JSON.parse\<close>, the
  argument object of a function call) are JSON values. An object is the list of its own
  enumerable properties in enumeration order, with distinct keys; a number is the finite
  number it denotes.
\<close>

datatype jsval =
    JNull
  | JBool bool
  | JNum rat
  | JStr string
  | JArr "jsval list"
  | JObj "(string \<times> jsval) list"

datatype error =
    Error string   \<comment> \<open>\<^verbatim>\<open>throw new Error(msg)\<close>\<close>
  | SyntaxError    \<comment> \<open>thrown by \<^verbatim>\<open>JSON.parse\<close>\<close>
  | TypeError      \<comment> \<open>a property read on \<^verbatim>\<open>null\<close> or \<^verbatim>\<open>undefined\<close>, a call of a non-function\<close>

text \<open>
  The functions of the JavaScript host that the adapter calls and that are not its own
  code. \<open>JSON_parse\<close> returns \<open>None\<close> where \<^verbatim>\<open>JSON.parse\<close> throws.
\<close>

record host =
  trim :: "string \<Rightarrow> string"
  toUpperCase :: "string \<Rightarrow> string"
  JSON_parse :: "string \<Rightarrow> jsval option"
  JSON_stringify :: "jsval \<Rightarrow> string"

definition backslash :: char where
  "backslash = CHR 0x5C"

definition newline :: char where
  "newline = CHR 0x0A"

text \<open>
  The source text \<^verbatim>\<open>"\\\\n"\<close> is a string literal with four backslash characters
  before the \<^verbatim>\<open>n\<close>: each pair is the escape of one backslash, so the string holds
  three characters, two backslashes and the letter n. The regular expression literal
  \<^verbatim>\<open>/\\\\n/g\<close> matches the same three characters.
\<close>

definition escapedNewline :: string where
  "escapedNewline = [backslash, backslash, CHR ''n'']"

text \<open>\<^verbatim>\<open>s.replace(pat, rep)\<close> with a string pattern: the first occurrence only.\<close>

fun replaceFirst :: "string \<Rightarrow> string \<Rightarrow> string \<Rightarrow> string" where
  "replaceFirst pat rep [] = (if pat = [] then rep else [])"
| "replaceFirst pat rep (c # cs) =
     (if take (length pat) (c # cs) = pat then rep @ drop (length pat) (c # cs)
      else c # replaceFirst pat rep cs)"

text \<open>
  \<^verbatim>\<open>s.replace(/pat/g, rep)\<close> for a pattern that matches one fixed non-empty string:
  every occurrence, scanning from the left, the scan resuming after each match.
\<close>

function replaceAll :: "string \<Rightarrow> string \<Rightarrow> string \<Rightarrow> string" where
  "replaceAll pat rep s =
     (if pat = [] \<or> s = [] then s
      else if take (length pat) s = pat then rep @ replaceAll pat rep (drop (length pat) s)
      else hd s # replaceAll pat rep (tl s))"
  by pat_completeness auto
termination
  by (relation "measure (\<lambda>(pat, rep, s). length s)") auto

declare replaceAll.simps [simp del]

text \<open>\<^verbatim>\<open>ix + ""\<close> for an array index: its decimal digits.\<close>

function numberToString :: "nat \<Rightarrow> string" where
  "numberToString n =
     (if n < 10 then [''0123456789'' ! n]
      else numberToString (n div 10) @ [''0123456789'' ! (n mod 10)])"
  by pat_completeness auto
termination
  by (relation "measure (\<lambda>n. n)") auto

declare numberToString.simps [simp del]

subsection \<open>Messages and native content\<close>

record functionCall =
  fc_name :: string
  fc_arguments :: string

record message =
  role :: string
  content :: string
  name :: "string option"
  function_call :: "functionCall option"

text \<open>
  A part of a native \<^verbatim>\<open>Content\<close>: \<^verbatim>\<open>{text}\<close>, \<^verbatim>\<open>{functionCall: {name, args}}\<close> or
  \<^verbatim>\<open>{functionResponse: {name, response: {name, content}}}\<close>.
\<close>

datatype part =
    Text string
  | FunctionCall string jsval
  | FunctionResponse "string option" "string option" jsval

record nativeContent =
  c_role :: string
  parts :: "part list"

definition tryParseJson :: "host \<Rightarrow> string \<Rightarrow> jsval" where
  "tryParseJson h str =
     (if str = [] then JStr []
      else case JSON_parse h str of Some v \<Rightarrow> v | None \<Rightarrow> JStr str)"

definition transformMessage :: "host \<Rightarrow> message \<Rightarrow> error + nativeContent" where
  "transformMessage h m =
     (if role m = ''user'' then
        Inr \<lparr>c_role = ''user'', parts = [Text (content m)]\<rparr>
      else if role m = ''assistant'' then
        (case function_call m of
           Some fc \<Rightarrow>
             (case JSON_parse h (fc_arguments fc) of
                None \<Rightarrow> Inl SyntaxError
              | Some args \<Rightarrow>
                  Inr \<lparr>c_role = ''model'', parts = [FunctionCall (fc_name fc) args]\<rparr>)
         | None \<Rightarrow>
             Inr \<lparr>c_role = ''model'',
                  parts = [Text (replaceFirst escapedNewline [newline] (content m))]\<rparr>)
      else if role m = ''function'' then
        Inr \<lparr>c_role = ''function'',
             parts = [FunctionResponse (name m) (name m) (tryParseJson h (content m))]\<rparr>
      else if role m = ''system'' then
        Inr \<lparr>c_role = ''user'',
             parts = [Text (''THE FOLLOWING MESSAGE IS NOT A USER MESSAGE. IT IS A SYSTEM MESSAGE: ''
                            @ content m)]\<rparr>
      else Inl (Error ''Invalid message role''))"

text \<open>\<^verbatim>\<open>xs.map(f)\<close> for an \<open>f\<close> that can throw: the first exception ends the map.\<close>

fun mapThrowing :: "('a \<Rightarrow> error + 'b) \<Rightarrow> 'a list \<Rightarrow> error + 'b list" where
  "mapThrowing f [] = Inr []"
| "mapThrowing f (x # xs) =
     (case f x of
        Inl e \<Rightarrow> Inl e
      | Inr y \<Rightarrow> (case mapThrowing f xs of Inl e \<Rightarrow> Inl e | Inr ys \<Rightarrow> Inr (y # ys)))"

definition recognisedRole :: "message \<Rightarrow> bool" where
  "recognisedRole m \<longleftrightarrow>
     role m = ''user'' \<or> role m = ''assistant'' \<or> role m = ''function'' \<or> role m = ''system''"

definition transformMessages :: "host \<Rightarrow> message list \<Rightarrow> error + nativeContent list" where
  "transformMessages h messages = mapThrowing (transformMessage h) (filter recognisedRole messages)"

subsection \<open>Tool declarations\<close>

record toolFunction =
  fn_name :: string
  fn_description :: string
  fn_parameters :: "jsval option"

record tool =
  tool_function :: toolFunction

record functionDeclaration =
  fd_name :: string
  fd_description :: string
  fd_parameters :: "jsval option"

record nativeTool =
  functionDeclarations :: "functionDeclaration list"

text \<open>The truth value of a JSON value in a condition.\<close>

fun truthy :: "jsval \<Rightarrow> bool" where
  "truthy JNull = False"
| "truthy (JBool b) = b"
| "truthy (JNum r) = (r \<noteq> 0)"
| "truthy (JStr s) = (s \<noteq> [])"
| "truthy (JArr xs) = True"
| "truthy (JObj kvs) = True"

text \<open>
  \<^verbatim>\<open>v.k\<close> for a value \<open>v\<close> other than \<^verbatim>\<open>null\<close> and a key \<open>k\<close> that is neither an index nor
  \<^verbatim>\<open>length\<close>: \<open>None\<close> is \<^verbatim>\<open>undefined\<close>, which is what a string, a number, a boolean
  and an array give.
\<close>

fun getField :: "string \<Rightarrow> jsval \<Rightarrow> jsval option" where
  "getField k (JObj kvs) = map_of kvs k"
| "getField k v = None"

text \<open>\<^verbatim>\<open>v.k = x\<close> for an object \<open>v\<close> that has the key \<open>k\<close>.\<close>

fun setField :: "string \<Rightarrow> jsval \<Rightarrow> jsval \<Rightarrow> jsval" where
  "setField k x (JObj kvs) = JObj (AList.update k x kvs)"
| "setField k x v = v"

text \<open>
  \<^verbatim>\<open>if (v.type) { v.type = v.type.toUpperCase(); }\<close>: a truthy \<^verbatim>\<open>type\<close> that is not a
  string has no \<^verbatim>\<open>toUpperCase\<close>, and the call throws.
\<close>

definition upperCaseType :: "host \<Rightarrow> jsval \<Rightarrow> error + jsval" where
  "upperCaseType h v =
     (case getField ''type'' v of
        None \<Rightarrow> Inr v
      | Some t \<Rightarrow>
          if truthy t then
            (case t of
               JStr s \<Rightarrow> Inr (setField ''type'' (JStr (toUpperCase h s)) v)
             | _ \<Rightarrow> Inl TypeError)
          else Inr v)"

lemma getField_size: "getField k v = Some p \<Longrightarrow> size p < size v"
proof (cases v)
  case (JObj kvs)
  assume "getField k v = Some p"
  with JObj have "(k, p) \<in> set kvs"
    by (simp add: map_of_SomeD)
  then have "size p < Suc (size_list (size_prod (\<lambda>_. 0) size) kvs)"
    by (induction kvs) auto
  with JObj show ?thesis by simp
qed simp_all

lemma getField_setField_other:
  "k \<noteq> k' \<Longrightarrow> getField k (setField k' x v) = getField k v"
  by (cases v) (simp_all add: update_conv')

lemma upperCaseType_properties:
  "upperCaseType h v = Inr v1 \<Longrightarrow> getField ''properties'' v1 = getField ''properties'' v"
  by (auto simp: upperCaseType_def getField_setField_other
      split: option.splits if_splits jsval.splits)

lemma size_values_le:
  "size_list (size \<circ> snd) kvs \<le> size_list (size_prod (\<lambda>_. 0) size) kvs"
  by (induction kvs) auto

text \<open>
  The local function \<^verbatim>\<open>transformProperties\<close> of \<^verbatim>\<open>transformTool\<close>. \<open>transformProperties\<close>
  is the function applied to \<open>props\<close>, \<open>forIn\<close> is its loop over the values
  \<^verbatim>\<open>props[key]\<close>, and \<open>transformProperty\<close> is the loop body at one value. The loop runs
  over the properties of an object and the elements of an array; a string has only
  one-character strings under its keys, which the body leaves alone, and \<^verbatim>\<open>null\<close>, a number
  and a boolean have no keys. The body reads \<^verbatim>\<open>props[key].type\<close>, which throws when
  \<^verbatim>\<open>props[key]\<close> is \<^verbatim>\<open>null\<close>.
\<close>

function transformProperties :: "host \<Rightarrow> jsval \<Rightarrow> error + jsval"
  and forIn :: "host \<Rightarrow> jsval list \<Rightarrow> error + jsval list"
  and transformProperty :: "host \<Rightarrow> jsval \<Rightarrow> error + jsval"
where
  "transformProperties h props =
     (case props of
        JObj kvs \<Rightarrow>
          (case forIn h (map snd kvs) of
             Inl e \<Rightarrow> Inl e
           | Inr vs \<Rightarrow> Inr (JObj (zip (map fst kvs) vs)))
      | JArr xs \<Rightarrow> (case forIn h xs of Inl e \<Rightarrow> Inl e | Inr vs \<Rightarrow> Inr (JArr vs))
      | _ \<Rightarrow> Inr props)"
| "forIn h [] = Inr []"
| "forIn h (v # vs) =
     (case transformProperty h v of
        Inl e \<Rightarrow> Inl e
      | Inr v' \<Rightarrow> (case forIn h vs of Inl e \<Rightarrow> Inl e | Inr vs' \<Rightarrow> Inr (v' # vs')))"
| "transformProperty h v =
     (if v = JNull then Inl TypeError
      else case upperCaseType h v of
        Inl e \<Rightarrow> Inl e
      | Inr v1 \<Rightarrow>
          (case getField ''properties'' v1 of
             None \<Rightarrow> Inr v1
           | Some p \<Rightarrow>
               if truthy p then
                 (case transformProperties h p of
                    Inl e \<Rightarrow> Inl e
                  | Inr p' \<Rightarrow> Inr (setField ''properties'' p' v1))
               else Inr v1))"
  by pat_completeness auto

termination
proof (relation "measure (\<lambda>x. case x of
          Inl (h, props) \<Rightarrow> size props
        | Inr (Inl (h, vs)) \<Rightarrow> size_list size vs
        | Inr (Inr (h, v)) \<Rightarrow> size v)", goal_cases)
  case (6 h v v1 p)
  then have "getField ''properties'' v = Some p"
    using upperCaseType_properties by simp
  then show ?case
    by (simp add: getField_size)
qed (simp_all add: size_values_le le_imp_less_Suc)

declare transformProperties.simps [simp del] transformProperty.simps [simp del]

definition transformTool :: "host \<Rightarrow> tool \<Rightarrow> error + nativeTool" where
  "transformTool h t =
     (let name = fn_name (tool_function t);
          description = fn_description (tool_function t);
          parameters = fn_parameters (tool_function t)
      in case parameters of
           None \<Rightarrow>
             Inr \<lparr>functionDeclarations =
               [\<lparr>fd_name = name, fd_description = description, fd_parameters = None\<rparr>]\<rparr>
         | Some props \<Rightarrow>
             (case transformProperties h props of
                Inl e \<Rightarrow> Inl e
              | Inr props' \<Rightarrow>
                  Inr \<lparr>functionDeclarations =
                    [\<lparr>fd_name = name, fd_description = description,
                      fd_parameters = Some props'\<rparr>]\<rparr>))"

definition transformTools :: "host \<Rightarrow> tool list \<Rightarrow> error + nativeTool list" where
  "transformTools h tools = mapThrowing (transformTool h) tools"

subsection \<open>The facade: \<^verbatim>\<open>getResponse\<close> up to the streaming send\<close>

text \<open>
  The argument of \<^verbatim>\<open>this.model.startChat\<close>; \<open>systemInstruction = None\<close> is an object
  without that field.
\<close>

record startChatParams =
  history :: "nativeContent list"
  systemInstruction :: "nativeContent option"
  tools :: "nativeTool list"

text \<open>
  What \<^verbatim>\<open>getResponse\<close> has done when it reaches the end of its synchronous part:
  \<open>messagesAfter\<close> is the caller's array \<^verbatim>\<open>forwardedProps.messages\<close> as the call leaves
  it, \<open>startChat\<close> is the argument \<^verbatim>\<open>startChat\<close> was called with (\<open>None\<close> when an exception
  came first), and \<open>sendMessageStream\<close> is the argument of \<^verbatim>\<open>chat.sendMessageStream\<close>, the
  one call that reaches the network, or the exception that was thrown before it.
\<close>

record getResponseResult =
  messagesAfter :: "message list"
  startChat :: "startChatParams option"
  sendMessageStream :: "error + part list"

text \<open>
  \<open>model\<close> is \<^verbatim>\<open>this.model.model\<close>, \<open>toolDecls\<close> is \<^verbatim>\<open>forwardedProps.tools\<close>
  (\<open>None\<close> when absent). The statements run in the order of the source:
  \<^verbatim>\<open>messages.slice(0, -1)\<close> is transcoded first, then the last element is read, then
  \<^verbatim>\<open>messages.shift()\<close> removes the first element from the caller's array; the tools are
  transcoded while the argument of \<^verbatim>\<open>startChat\<close> is built, and the current message after
  \<^verbatim>\<open>startChat\<close> has returned. On an empty array \<^verbatim>\<open>currentMessage\<close> is \<^verbatim>\<open>undefined\<close>, and
  \<^verbatim>\<open>transformMessage\<close> throws when it reads its role.
\<close>

definition getResponse ::
  "host \<Rightarrow> string \<Rightarrow> message list \<Rightarrow> tool list option \<Rightarrow> getResponseResult" where
  "getResponse h model messages toolDecls =
     (case transformMessages h (butlast messages) of
        Inl e \<Rightarrow>
          \<lparr>messagesAfter = messages, startChat = None, sendMessageStream = Inl e\<rparr>
      | Inr hist \<Rightarrow>
          (let currentMessage = (if messages = [] then None else Some (last messages));
               systemMessage = (case messages of [] \<Rightarrow> [] | m # _ \<Rightarrow> trim h (content m));
               shifted = drop 1 messages;
               isFirstGenGeminiPro = (model = ''gemini-pro'' \<or> model = ''models/gemini-pro'');
               systemTurn = \<lparr>c_role = ''user'', parts = [Text systemMessage]\<rparr>
           in case transformTools h (case toolDecls of None \<Rightarrow> [] | Some ts \<Rightarrow> ts) of
                Inl e \<Rightarrow>
                  \<lparr>messagesAfter = shifted, startChat = None, sendMessageStream = Inl e\<rparr>
              | Inr ts \<Rightarrow>
                  \<lparr>messagesAfter = shifted,
                   startChat = Some
                     \<lparr>history = hist @ (if isFirstGenGeminiPro then [systemTurn] else []),
                      systemInstruction = (if isFirstGenGeminiPro then None else Some systemTurn),
                      tools = ts\<rparr>,
                   sendMessageStream =
                     (case currentMessage of
                        None \<Rightarrow> Inl TypeError
                      | Some m \<Rightarrow>
                          (case transformMessage h m of
                             Inl e \<Rightarrow> Inl e
                           | Inr c \<Rightarrow> Inr (parts c)))\<rparr>))"

subsection \<open>The streaming bridge: the \<^verbatim>\<open>start\<close> callback of the returned stream\<close>

text \<open>
  \<^verbatim>\<open>replaceNewlinesInObject\<close>; \<open>replaceNewlinesInEach\<close> is \<^verbatim>\<open>obj.map(replaceNewlinesInObject)\<close>
  and the sequence of the recursive calls of the loop over an object. The loop calls
  \<^verbatim>\<open>obj.hasOwnProperty(key)\<close> at its first key: when the object has an own property of
  that name, the property is a JSON value, not a function, and the call throws. The
  assignment \<^verbatim>\<open>newObj[key] = ...\<close> with the key \<^verbatim>\<open>__proto__\<close> goes to the setter of
  \<^verbatim>\<open>Object.prototype\<close> and gives \<^verbatim>\<open>newObj\<close> no property, so that key is absent from the
  result.
\<close>

function replaceNewlinesInObject :: "jsval \<Rightarrow> error + jsval"
  and replaceNewlinesInEach :: "jsval list \<Rightarrow> error + jsval list"
where
  "replaceNewlinesInObject obj =
     (case obj of
        JStr s \<Rightarrow> Inr (JStr (replaceAll escapedNewline [newline] s))
      | JArr xs \<Rightarrow>
          (case replaceNewlinesInEach xs of Inl e \<Rightarrow> Inl e | Inr ys \<Rightarrow> Inr (JArr ys))
      | JObj kvs \<Rightarrow>
          if ''hasOwnProperty'' \<in> set (map fst kvs) then Inl TypeError
          else (case replaceNewlinesInEach (map snd kvs) of
                  Inl e \<Rightarrow> Inl e
                | Inr vs \<Rightarrow>
                    Inr (JObj (filter (\<lambda>(key, v). key \<noteq> ''__proto__'') (zip (map fst kvs) vs))))
      | _ \<Rightarrow> Inr obj)"
| "replaceNewlinesInEach [] = Inr []"
| "replaceNewlinesInEach (v # vs) =
     (case replaceNewlinesInObject v of
        Inl e \<Rightarrow> Inl e
      | Inr v' \<Rightarrow>
          (case replaceNewlinesInEach vs of Inl e \<Rightarrow> Inl e | Inr vs' \<Rightarrow> Inr (v' # vs')))"
  by pat_completeness auto
termination
  by (relation "measure (\<lambda>x. case x of Inl obj \<Rightarrow> size obj | Inr vs \<Rightarrow> size_list size vs)")
    (simp_all add: size_values_le le_imp_less_Suc)

declare replaceNewlinesInObject.simps [simp del]

record toolCallFunction =
  tcf_name :: string
  tcf_arguments :: string

record toolCall =
  index :: nat
  tc_id :: string
  tc_function :: toolCallFunction

record delta =
  d_role :: string
  d_content :: string
  tool_calls :: "toolCall list option"

record choice =
  delta :: delta

record chatCompletionChunk =
  choices :: "choice list"

text \<open>
  Modelled from the spec: \<^verbatim>\<open>writeChatCompletionChunk\<close> and \<^verbatim>\<open>writeChatCompletionEnd\<close> of
  \<^verbatim>\<open>../utils\<close>, which the adapter imports. The spec gives them as the chunk-writer
  capability: write-chunk writes one record for a chunk, write-end-marker writes the
  sentinel. The controller is the sequence of records written so far, whether the
  stream has been closed, and the exception the callback threw, if it threw one.
\<close>

datatype written = Chunk chatCompletionChunk | EndMarker

record controller =
  enqueued :: "written list"
  closed :: bool
  errored :: "error option"

definition writeChatCompletionChunk :: "controller \<Rightarrow> chatCompletionChunk \<Rightarrow> controller" where
  "writeChatCompletionChunk ctl chunk = ctl\<lparr>enqueued := enqueued ctl @ [Chunk chunk]\<rparr>"

definition writeChatCompletionEnd :: "controller \<Rightarrow> controller" where
  "writeChatCompletionEnd ctl = ctl\<lparr>enqueued := enqueued ctl @ [EndMarker]\<rparr>"

definition close :: "controller \<Rightarrow> controller" where
  "close ctl = ctl\<lparr>closed := True\<rparr>"

text \<open>A function call of the aggregated response: \<^verbatim>\<open>{name, args}\<close>.\<close>

record call =
  call_name :: string
  call_args :: jsval

definition textChunk :: "string \<Rightarrow> chatCompletionChunk" where
  "textChunk chunkText =
     \<lparr>choices = [\<lparr>delta = \<lparr>d_role = ''assistant'', d_content = chunkText, tool_calls = None\<rparr>\<rparr>]\<rparr>"

text \<open>
  The loop \<^verbatim>\<open>for await (const chunk of result.stream)\<close> over a stream that ends: the list
  holds \<^verbatim>\<open>chunk.text()\<close> of each chunk, in the order of arrival.
\<close>

fun forAwait :: "string list \<Rightarrow> controller \<Rightarrow> controller" where
  "forAwait [] ctl = ctl"
| "forAwait (chunkText # rest) ctl =
     forAwait rest (writeChatCompletionChunk ctl (textChunk chunkText))"

text \<open>
  The callback of \<^verbatim>\<open>calls.map\<close>: of the fields of the entry only \<^verbatim>\<open>arguments\<close> can throw.
\<close>

definition toolCallOf :: "host \<Rightarrow> nat \<times> call \<Rightarrow> error + toolCall" where
  "toolCallOf h = (\<lambda>(ix, c).
     case replaceNewlinesInObject (call_args c) of
       Inl e \<Rightarrow> Inl e
     | Inr args \<Rightarrow>
         Inr \<lparr>index = ix, tc_id = numberToString ix,
              tc_function = \<lparr>tcf_name = call_name c,
                             tcf_arguments = JSON_stringify h args\<rparr>\<rparr>)"

definition toolCallChunk :: "host \<Rightarrow> call list \<Rightarrow> error + chatCompletionChunk" where
  "toolCallChunk h calls =
     (case mapThrowing (toolCallOf h) (enumerate 0 calls) of
        Inl e \<Rightarrow> Inl e
      | Inr tcs \<Rightarrow>
          Inr \<lparr>choices = [\<lparr>delta = \<lparr>d_role = ''assistant'', d_content = [],
                                      tool_calls = Some tcs\<rparr>\<rparr>]\<rparr>)"

text \<open>
  The callback on a run in which the upstream stream ends and the aggregated response
  arrives: \<open>stream\<close> is \<^verbatim>\<open>result.stream\<close>, \<open>functionCalls\<close> is what
  \<^verbatim>\<open>(await result.response).functionCalls()\<close> returns, \<open>None\<close> for \<^verbatim>\<open>undefined\<close>. The
  callback catches nothing: an exception thrown while the chunk of the tool calls is
  built ends it where it stands, after the text chunks, with nothing more written and
  the stream not closed; \<open>errored\<close> holds the exception. (An exception of the upstream
  does the same; these runs are not part of the model.)
\<close>

definition start :: "host \<Rightarrow> string list \<Rightarrow> call list option \<Rightarrow> controller \<Rightarrow> controller" where
  "start h stream functionCalls controller =
     (let ctl1 = forAwait stream controller
      in case functionCalls of
           None \<Rightarrow> close (writeChatCompletionEnd ctl1)
         | Some calls \<Rightarrow>
             if length calls > 0 then
               (case toolCallChunk h calls of
                  Inl e \<Rightarrow> ctl1\<lparr>errored := Some e\<rparr>
                | Inr ccChunk \<Rightarrow>
                    close (writeChatCompletionEnd (writeChatCompletionChunk ctl1 ccChunk)))
             else close (writeChatCompletionEnd ctl1))"

definition newController :: controller where
  "newController = \<lparr>enqueued = [], closed = False, errored = None\<rparr>"

subsection \<open>A test double for the host, and sample inputs\<close>

text \<open>
  The theorems below hold for every host. Their instances at concrete inputs use this
  one: it trims ASCII white space, upper-cases ASCII letters, and parses and prints the
  few JSON texts of the examples.
\<close>

definition whitespace :: "char \<Rightarrow> bool" where
  "whitespace c \<longleftrightarrow> c \<in> set [CHR 0x09, CHR 0x0A, CHR 0x0B, CHR 0x0C, CHR 0x0D, CHR '' '']"

definition testParse :: "string \<Rightarrow> jsval option" where
  \<open>testParse = map_of
     [(''{}'', JObj []),
      (''{"a":1}'', JObj [(''a'', JNum 1)]),
      (''{"x":1}'', JObj [(''x'', JNum 1)])]\<close>

definition testStringify :: "jsval \<Rightarrow> string" where
  \<open>testStringify v =
     (if v = JObj [(''q'', JStr ''x'')] then ''{"q":"x"}''
      else if v = JObj [] then ''{}''
      else ''null'')\<close>

definition testHost :: host where
  "testHost =
     \<lparr>trim = (\<lambda>s. rev (dropWhile whitespace (rev (dropWhile whitespace s)))),
      toUpperCase = map (\<lambda>c.
        case map_of (zip ''abcdefghijklmnopqrstuvwxyz'' ''ABCDEFGHIJKLMNOPQRSTUVWXYZ'') c of
          Some u \<Rightarrow> u
        | None \<Rightarrow> c),
      JSON_parse = testParse,
      JSON_stringify = testStringify\<rparr>"

definition msg :: "string \<Rightarrow> string \<Rightarrow> message" where
  "msg r c = \<lparr>role = r, content = c, name = None, function_call = None\<rparr>"

definition systemS :: message where
  "systemS = msg ''system'' ''S''"

definition userHi :: message where
  "userHi = msg ''user'' ''Hi''"

definition toolX :: message where
  "toolX = msg ''tool'' ''x''"

definition systemBeConcise :: message where
  "systemBeConcise = msg ''system'' ''Be concise''"

definition weatherParameters :: jsval where
  "weatherParameters =
     JObj [(''type'', JStr ''object''),
           (''properties'', JObj [(''city'', JObj [(''type'', JStr ''string'')])])]"

definition weatherTool :: tool where
  "weatherTool =
     \<lparr>tool_function =
        \<lparr>fn_name = ''get_weather'', fn_description = ''Weather of a city'',
         fn_parameters = Some weatherParameters\<rparr>\<rparr>"

definition lookupCall :: call where
  "lookupCall = \<lparr>call_name = ''lookup'', call_args = JObj [(''q'', JStr ''x'')]\<rparr>"

definition assistantTwice :: message where
  "assistantTwice =
     msg ''assistant'' (''a'' @ [CHR 0x5C, CHR 0x5C, CHR ''n''] @ ''b'' @ [CHR 0x5C, CHR 0x5C, CHR ''n''])"

definition assistantHi :: message where
  "assistantHi = msg ''assistant'' ''Hi''"

definition assistantBackslashN :: message where
  "assistantBackslashN = msg ''assistant'' [CHR 0x5C, CHR ''n'']"

definition shadowingCall :: call where
  "shadowingCall =
     \<lparr>call_name = ''lookup'', call_args = JObj [(''hasOwnProperty'', JBool True)]\<rparr>"

definition newlineCall :: call where
  "newlineCall =
     \<lparr>call_name = ''lookup'',
      call_args = JObj [(''q'', JStr (''a'' @ [CHR 0x5C, CHR 0x5C, CHR ''n''] @ ''b'' @
                                       [CHR 0x5C, CHR 0x5C, CHR ''n''])),
                        (''list'', JArr [JStr [CHR 0x5C, CHR 0x5C, CHR ''n''], JNum 1])]\<rparr>"

lemmas sample_defs = systemS_def userHi_def toolX_def systemBeConcise_def msg_def testHost_def

subsection \<open>Auxiliary facts\<close>

lemma mapThrowing_Inr_iff: "mapThrowing f xs = Inr ys \<longleftrightarrow> map f xs = map Inr ys"
proof (induction xs arbitrary: ys)
  case Nil
  show ?case by auto
next
  case (Cons x xs)
  show ?case
  proof (cases "f x")
    case (Inl e)
    then show ?thesis by (auto simp: Cons_eq_map_conv)
  next
    case (Inr y)
    then show ?thesis
      using Cons.IH by (cases "mapThrowing f xs") (auto simp: Cons_eq_map_conv)
  qed
qed

lemma forAwait_enqueued:
  "enqueued (forAwait stream ctl) = enqueued ctl @ map (Chunk \<circ> textChunk) stream"
  by (induction stream arbitrary: ctl) (simp_all add: writeChatCompletionChunk_def)

lemma forAwait_closed: "closed (forAwait stream ctl) = closed ctl"
  by (induction stream arbitrary: ctl) (simp_all add: writeChatCompletionChunk_def)

text \<open>\<open>occursAt pat s i\<close>: the string \<open>pat\<close> stands in \<open>s\<close> at position \<open>i\<close>.\<close>

definition occursAt :: "string \<Rightarrow> string \<Rightarrow> nat \<Rightarrow> bool" where
  "occursAt pat s i \<longleftrightarrow> take (length pat) (drop i s) = pat"

lemma replaceFirst_at_first_occurrence:
  "pat \<noteq> [] \<Longrightarrow> occursAt pat s i \<Longrightarrow> (\<forall>j<i. \<not> occursAt pat s j) \<Longrightarrow>
     replaceFirst pat rep s = take i s @ rep @ drop (i + length pat) s"
proof (induction s arbitrary: i)
  case Nil
  then show ?case by (simp add: occursAt_def)
next
  case (Cons c cs)
  show ?case
  proof (cases i)
    case 0
    with Cons.prems show ?thesis by (simp add: occursAt_def)
  next
    case (Suc k)
    with Cons.prems have no0: "\<not> occursAt pat (c # cs) 0" by blast
    from Suc Cons.prems have occ: "occursAt pat cs k" by (simp add: occursAt_def)
    have "\<forall>j<k. \<not> occursAt pat cs j"
    proof (intro allI impI)
      fix j assume "j < k"
      then have "\<not> occursAt pat (c # cs) (Suc j)" using Cons.prems Suc by simp
      then show "\<not> occursAt pat cs j" by (simp add: occursAt_def)
    qed
    with Cons.IH[OF Cons.prems(1) occ]
    have "replaceFirst pat rep cs = take k cs @ rep @ drop (k + length pat) cs" by simp
    with no0 Suc show ?thesis by (simp add: occursAt_def)
  qed
qed

lemma replaceFirst_no_occurrence:
  "pat \<noteq> [] \<Longrightarrow> (\<forall>j. \<not> occursAt pat s j) \<Longrightarrow> replaceFirst pat rep s = s"
proof (induction s)
  case Nil
  then show ?case by simp
next
  case (Cons c cs)
  have "\<not> occursAt pat (c # cs) 0" using Cons.prems by blast
  moreover have "\<forall>j. \<not> occursAt pat cs j"
  proof
    fix j
    have "\<not> occursAt pat (c # cs) (Suc j)" using Cons.prems by blast
    then show "\<not> occursAt pat cs j" by (simp add: occursAt_def)
  qed
  ultimately show ?case using Cons.IH[OF Cons.prems(1)] by (simp add: occursAt_def)
qed



lemma getResponse_messagesAfter:
  "messagesAfter (getResponse h model messages toolDecls) =
     (case transformMessages h (butlast messages) of
        Inl e \<Rightarrow> messages
      | Inr hist \<Rightarrow> drop 1 messages)"
  by (simp add: getResponse_def Let_def split: sum.splits)

lemma getResponse_sent:
  assumes "sendMessageStream (getResponse h model messages toolDecls) = Inr ps"
  shows "messages \<noteq> [] \<and> (\<exists>hist. transformMessages h (butlast messages) = Inr hist)"
proof (cases "transformMessages h (butlast messages)")
  case (Inl e)
  with assms show ?thesis by (simp add: getResponse_def)
next
  case (Inr hist)
  with assms show ?thesis
    by (cases "messages = []") (auto simp: getResponse_def Let_def split: sum.splits)
qed

text \<open>The number that a string of decimal digits denotes.\<close>

definition decimalValue :: "string \<Rightarrow> nat" where
  "decimalValue s = foldl (\<lambda>acc c. 10 * acc + (of_char c - 48)) 0 s"

lemma digit_value:
  assumes "n < 10"
  shows "of_char (''0123456789'' ! n) - 48 = n"
proof -
  from assms have "n \<in> {0, 1, 2, 3, 4, 5, 6, 7, 8, 9}"
    by auto
  then show ?thesis
    by auto
qed

lemma decimalValue_numberToString: "decimalValue (numberToString n) = n"
proof (induction n rule: numberToString.induct)
  case (1 n)
  show ?case
  proof (cases "n < 10")
    case True
    then show ?thesis
      by (subst numberToString.simps) (simp add: decimalValue_def digit_value)
  next
    case False
    have "decimalValue (numberToString n) =
        10 * decimalValue (numberToString (n div 10)) + (of_char (''0123456789'' ! (n mod 10)) - 48)"
      using False by (subst numberToString.simps) (simp add: decimalValue_def)
    also have "\<dots> = 10 * (n div 10) + n mod 10"
      using 1 False by (simp add: digit_value)
    finally show ?thesis by simp
  qed
qed

lemma forAwait_errored: "errored (forAwait stream ctl) = errored ctl"
  by (induction stream arbitrary: ctl) (simp_all add: writeChatCompletionChunk_def)

lemma forAwait_eq:
  "forAwait stream ctl = ctl\<lparr>enqueued := enqueued ctl @ map (Chunk \<circ> textChunk) stream\<rparr>"
  by (induction stream arbitrary: ctl) (simp_all add: writeChatCompletionChunk_def)

lemma start_enqueued:
  "enqueued (start h stream functionCalls controller) =
     enqueued controller @ map (Chunk \<circ> textChunk) stream @
     (case functionCalls of
        None \<Rightarrow> [EndMarker]
      | Some calls \<Rightarrow>
          if calls = [] then [EndMarker]
          else (case toolCallChunk h calls of
                  Inl e \<Rightarrow> []
                | Inr ccChunk \<Rightarrow> [Chunk ccChunk, EndMarker]))"
  by (simp add: start_def Let_def forAwait_enqueued writeChatCompletionChunk_def
      writeChatCompletionEnd_def close_def split: option.splits sum.splits)

lemma toolCallChunk_tool_calls:
  "toolCallChunk h calls = Inr ccChunk \<Longrightarrow>
     \<exists>tcs. ccChunk = \<lparr>choices = [\<lparr>delta = \<lparr>d_role = ''assistant'', d_content = [],
                                             tool_calls = Some tcs\<rparr>\<rparr>]\<rparr>"
  by (auto simp: toolCallChunk_def split: sum.splits)

subsection \<open>What the bridge does when nothing throws\<close>

text \<open>
  \<open>joinWith sep pieces\<close> is the pieces with \<open>sep\<close> between them. \<open>normalised v w\<close> says in
  words of its own what the normalisation of the escaped newlines is: a string is cut
  into pieces at occurrences of backslash, backslash, n, none left inside a piece, and
  the pieces are joined by a newline character instead; an array and an object are
  normalised element by element and value by value, keys kept; every other value is
  left as it is. \<open>plainKeys v\<close>: no object inside \<open>v\<close> has an own property named
  \<^verbatim>\<open>hasOwnProperty\<close> or \<^verbatim>\<open>__proto__\<close>.
\<close>

fun joinWith :: "string \<Rightarrow> string list \<Rightarrow> string" where
  "joinWith sep [] = []"
| "joinWith sep [p] = p"
| "joinWith sep (p # q # ps) = p @ sep @ joinWith sep (q # ps)"

inductive normalised :: "jsval \<Rightarrow> jsval \<Rightarrow> bool" where
  "\<forall>p \<in> set pieces. \<forall>j. \<not> occursAt [CHR 0x5C, CHR 0x5C, CHR ''n''] p j \<Longrightarrow>
     normalised (JStr (joinWith [CHR 0x5C, CHR 0x5C, CHR ''n''] pieces))
                (JStr (joinWith [CHR 0x0A] pieces))"
| "list_all2 normalised xs ys \<Longrightarrow> normalised (JArr xs) (JArr ys)"
| "map fst kvs' = map fst kvs \<Longrightarrow> list_all2 normalised (map snd kvs) (map snd kvs') \<Longrightarrow>
     normalised (JObj kvs) (JObj kvs')"
| "normalised JNull JNull"
| "normalised (JBool b) (JBool b)"
| "normalised (JNum r) (JNum r)"

fun plainKeys :: "jsval \<Rightarrow> bool"
  and plainKeysEach :: "jsval list \<Rightarrow> bool"
  and plainKeysEntries :: "(string \<times> jsval) list \<Rightarrow> bool"
where
  "plainKeys (JArr xs) = plainKeysEach xs"
| "plainKeys (JObj kvs) = plainKeysEntries kvs"
| "plainKeys v = True"
| "plainKeysEach [] = True"
| "plainKeysEach (v # vs) = (plainKeys v \<and> plainKeysEach vs)"
| "plainKeysEntries [] = True"
| "plainKeysEntries ((key, v) # kvs) =
     (key \<noteq> ''hasOwnProperty'' \<and> key \<noteq> ''__proto__'' \<and> plainKeys v \<and> plainKeysEntries kvs)"

lemma joinWith_Cons: "\<exists>r. joinWith sep (p # ps) = p @ r"
  by (cases ps) simp_all

lemma joinWith_Cons_Cons: "joinWith sep ((c # p) # ps) = c # joinWith sep (p # ps)"
  by (cases ps) simp_all

lemma joinWith_Nil_Cons: "ps \<noteq> [] \<Longrightarrow> joinWith sep ([] # ps) = sep @ joinWith sep ps"
  by (cases ps) simp_all

lemma occursAt_prefix:
  assumes "occursAt pat p 0"
  shows "take (length pat) (p @ r) = pat"
proof -
  from assms have t: "take (length pat) p = pat"
    by (simp add: occursAt_def)
  then have "length (take (length pat) p) = length pat"
    by simp
  then have "length pat \<le> length p"
    by simp
  with t show ?thesis by simp
qed

lemma replaceAll_pieces:
  assumes "pat \<noteq> []"
  shows "\<exists>pieces. pieces \<noteq> [] \<and> s = joinWith pat pieces \<and>
           replaceAll pat rep s = joinWith rep pieces \<and>
           (\<forall>p \<in> set pieces. \<forall>j. \<not> occursAt pat p j)"
  using assms
proof (induction pat rep s rule: replaceAll.induct)
  case (1 pat rep s)
  show ?case
  proof (cases "s = []")
    case True
    have "[[]] \<noteq> [] \<and> s = joinWith pat [[]] \<and> replaceAll pat rep s = joinWith rep [[]] \<and>
        (\<forall>p \<in> set [[]]. \<forall>j. \<not> occursAt pat p j)"
      using True "1.prems" by (simp add: replaceAll.simps occursAt_def)
    then show ?thesis by blast
  next
    case False
    show ?thesis
    proof (cases "take (length pat) s = pat")
      case True
      from "1.IH"(1) [OF _ True "1.prems"] False "1.prems" obtain pieces where
        ne: "pieces \<noteq> []" and j: "drop (length pat) s = joinWith pat pieces"
        and r: "replaceAll pat rep (drop (length pat) s) = joinWith rep pieces"
        and o: "\<forall>p \<in> set pieces. \<forall>j. \<not> occursAt pat p j"
        by auto
      have s: "s = pat @ drop (length pat) s"
        using True by (metis append_take_drop_id)
      have "s = joinWith pat ([] # pieces)"
        using s j ne by (simp add: joinWith_Nil_Cons)
      moreover have "replaceAll pat rep s = joinWith rep ([] # pieces)"
        using True False "1.prems" r ne
        by (subst replaceAll.simps) (simp add: joinWith_Nil_Cons)
      moreover have "\<forall>p \<in> set ([] # pieces). \<forall>j. \<not> occursAt pat p j"
        using o "1.prems" by (simp add: occursAt_def)
      ultimately show ?thesis by blast
    next
      case nomatch: False
      from "1.IH"(2) [OF _ nomatch "1.prems"] False "1.prems" obtain pieces where
        ne: "pieces \<noteq> []" and j: "tl s = joinWith pat pieces"
        and r: "replaceAll pat rep (tl s) = joinWith rep pieces"
        and o: "\<forall>p \<in> set pieces. \<forall>j. \<not> occursAt pat p j"
        by auto
      from ne obtain p0 ps where pieces: "pieces = p0 # ps"
        by (cases pieces) auto
      from False obtain c where c: "s = c # tl s" and hd: "hd s = c"
        by (cases s) auto
      have js: "s = joinWith pat ((c # p0) # ps)"
        using c j pieces by (simp add: joinWith_Cons_Cons)
      have rs: "replaceAll pat rep s = joinWith rep ((c # p0) # ps)"
        using hd nomatch False "1.prems" r pieces
        by (subst replaceAll.simps) (simp add: joinWith_Cons_Cons)
      have "\<not> occursAt pat (c # p0) j" for j
      proof (cases j)
        case 0
        show ?thesis
        proof
          assume "occursAt pat (c # p0) j"
          with 0 have "occursAt pat (c # p0) 0" by simp
          moreover obtain rest where "s = (c # p0) @ rest"
            using js joinWith_Cons [of pat "c # p0" ps] by auto
          ultimately have "take (length pat) s = pat"
            using occursAt_prefix by metis
          with nomatch show False by simp
        qed
      next
        case (Suc k)
        from o pieces have "\<not> occursAt pat p0 k" by simp
        with Suc show ?thesis by (simp add: occursAt_def)
      qed
      with o pieces have "\<forall>p \<in> set ((c # p0) # ps). \<forall>j. \<not> occursAt pat p j"
        by simp
      with js rs show ?thesis by blast
    qed
  qed
qed

lemma plainKeysEntries_iff:
  "plainKeysEntries kvs \<longleftrightarrow>
     ''hasOwnProperty'' \<notin> set (map fst kvs) \<and> ''__proto__'' \<notin> set (map fst kvs) \<and>
     plainKeysEach (map snd kvs)"
  by (induction kvs) auto

lemma filter_proto_id:
  assumes "''__proto__'' \<notin> set (map fst kvs)" and "length vs = length kvs"
  shows "filter (\<lambda>(key, v). key \<noteq> ''__proto__'') (zip (map fst kvs) vs) = zip (map fst kvs) vs"
proof -
  have "\<forall>x \<in> set (zip (map fst kvs) vs). (\<lambda>(key, v). key \<noteq> ''__proto__'') x"
    using assms(1) by (auto dest: set_zip_leftD)
  then show ?thesis by (simp add: filter_id_conv)
qed

lemma replaceNewlinesInObject_normalised:
  "plainKeys obj \<Longrightarrow> \<exists>a. replaceNewlinesInObject obj = Inr a \<and> normalised obj a"
  "plainKeysEach vs \<Longrightarrow> \<exists>as. replaceNewlinesInEach vs = Inr as \<and> list_all2 normalised vs as"
proof (induction obj and vs rule: replaceNewlinesInObject_replaceNewlinesInEach.induct)
  case (1 obj)
  show ?case
  proof (cases obj)
    case JNull
    then show ?thesis
      by (simp add: replaceNewlinesInObject.simps normalised.intros)
  next
    case (JBool b)
    then show ?thesis
      by (simp add: replaceNewlinesInObject.simps normalised.intros)
  next
    case (JNum r)
    then show ?thesis
      by (simp add: replaceNewlinesInObject.simps normalised.intros)
  next
    case (JStr s)
    have ne: "[CHR 0x5C, CHR 0x5C, CHR ''n''] \<noteq> []" by simp
    from replaceAll_pieces [OF ne, of s "[CHR 0x0A]"] obtain pieces where
      "s = joinWith [CHR 0x5C, CHR 0x5C, CHR ''n''] pieces"
      "replaceAll [CHR 0x5C, CHR 0x5C, CHR ''n''] [CHR 0x0A] s = joinWith [CHR 0x0A] pieces"
      "\<forall>p \<in> set pieces. \<forall>j. \<not> occursAt [CHR 0x5C, CHR 0x5C, CHR ''n''] p j"
      by blast
    then have "normalised (JStr s)
        (JStr (replaceAll [CHR 0x5C, CHR 0x5C, CHR ''n''] [CHR 0x0A] s))"
      using normalised.intros(1) [of pieces] by simp
    with JStr show ?thesis
      by (simp add: replaceNewlinesInObject.simps escapedNewline_def backslash_def newline_def)
  next
    case (JArr xs)
    with "1.prems" have "plainKeysEach xs" by simp
    from "1.IH"(1) [OF JArr this] obtain ys where
      "replaceNewlinesInEach xs = Inr ys" "list_all2 normalised xs ys"
      by blast
    with JArr show ?thesis
      by (simp add: replaceNewlinesInObject.simps normalised.intros)
  next
    case (JObj kvs)
    with "1.prems" have k1: "''hasOwnProperty'' \<notin> set (map fst kvs)"
      and k2: "''__proto__'' \<notin> set (map fst kvs)"
      and pv: "plainKeysEach (map snd kvs)"
      by (simp_all add: plainKeysEntries_iff)
    from "1.IH"(2) [OF JObj k1 pv] obtain vs where
      r: "replaceNewlinesInEach (map snd kvs) = Inr vs"
      and n: "list_all2 normalised (map snd kvs) vs"
      by blast
    from n have len: "length vs = length kvs"
      by (auto dest: list_all2_lengthD)
    have res: "replaceNewlinesInObject obj = Inr (JObj (zip (map fst kvs) vs))"
      using JObj k1 r filter_proto_id [OF k2 len]
      by (simp add: replaceNewlinesInObject.simps)
    have "normalised (JObj kvs) (JObj (zip (map fst kvs) vs))"
      using n len by (intro normalised.intros(3)) simp_all
    with res JObj show ?thesis by simp
  qed
next
  case 2
  show ?case by simp
next
  case (3 v vs)
  from "3.prems" have pv: "plainKeys v" and pvs: "plainKeysEach vs" by simp_all
  from "3.IH"(1) [OF pv] obtain a where a: "replaceNewlinesInObject v = Inr a" "normalised v a"
    by blast
  from "3.IH"(2) [OF a(1) pvs] obtain as where
    "replaceNewlinesInEach vs = Inr as" "list_all2 normalised vs as"
    by blast
  with a show ?case by simp
qed

lemma numberToString_nonempty: "numberToString n \<noteq> []"
  by (subst numberToString.simps) simp

lemma digit_in_digits: "n < 10 \<Longrightarrow> ''0123456789'' ! n \<in> set ''0123456789''"
  by (rule nth_mem) simp

lemma numberToString_digits: "set (numberToString n) \<subseteq> set ''0123456789''"
proof (induction n rule: numberToString.induct)
  case (1 n)
  show ?case
  proof (cases "n < 10")
    case True
    then show ?thesis
      using digit_in_digits [OF True] by (subst numberToString.simps) simp
  next
    case False
    have "n mod 10 < 10" by simp
    from digit_in_digits [OF this] 1 False show ?thesis
      by (subst numberToString.simps) simp
  qed
qed

lemma digit_zero: "n < 10 \<Longrightarrow> ''0123456789'' ! n = CHR ''0'' \<Longrightarrow> n = 0"
proof -
  assume "n < 10" and z: "''0123456789'' ! n = CHR ''0''"
  then have "n \<in> {0, 1, 2, 3, 4, 5, 6, 7, 8, 9}"
    by auto
  with z show ?thesis by auto
qed

lemma numberToString_leading_zero: "hd (numberToString n) = CHR ''0'' \<Longrightarrow> n = 0"
proof (induction n rule: numberToString.induct)
  case (1 n)
  show ?case
  proof (cases "n < 10")
    case True
    with "1.prems" have "''0123456789'' ! n = CHR ''0''"
      by (subst (asm) numberToString.simps) simp
    with True show ?thesis by (rule digit_zero)
  next
    case False
    with "1.prems" have "hd (numberToString (n div 10)) = CHR ''0''"
      by (subst (asm) numberToString.simps) (simp add: numberToString_nonempty)
    with "1.IH" False have "n div 10 = 0" by simp
    with False show ?thesis by simp
  qed
qed

lemma mapThrowing_total:
  "\<forall>x \<in> set xs. \<exists>y. f x = Inr y \<Longrightarrow> \<exists>ys. mapThrowing f xs = Inr ys"
  by (induction xs) auto

lemma mapThrowing_nth:
  assumes "mapThrowing f xs = Inr ys"
  shows "length ys = length xs \<and> (\<forall>i<length xs. f (xs ! i) = Inr (ys ! i))"
proof -
  from assms have m: "map f xs = map Inr ys"
    by (simp add: mapThrowing_Inr_iff)
  then have l: "length ys = length xs"
    by (metis length_map)
  have "\<forall>i<length xs. f (xs ! i) = Inr (ys ! i)"
  proof (intro allI impI)
    fix i assume i: "i < length xs"
    then have "f (xs ! i) = map f xs ! i" by simp
    also have "\<dots> = map Inr ys ! i" by (simp only: m)
    also from i l have "\<dots> = Inr (ys ! i)" by simp
    finally show "f (xs ! i) = Inr (ys ! i)" .
  qed
  with l show ?thesis by simp
qed

text \<open>
  Without function calls the bridge writes the text chunks and the end marker, and
  closes. With function calls whose arguments have plain keys it writes one chunk for
  the tool calls after the text chunks and before the end marker, and closes: entry
  \<open>ix\<close> has \<open>index = ix\<close>, as \<open>id\<close> the decimal digits of \<open>ix\<close> (not empty, digits only, no
  leading zero but for zero itself, reading back as \<open>ix\<close>), the name of the call, and as
  arguments the JSON text of the normalised argument object.
\<close>

lemma start_without_calls:
  "functionCalls = None \<or> functionCalls = Some [] \<Longrightarrow>
     start h stream functionCalls newController =
       \<lparr>enqueued = map (Chunk \<circ> textChunk) stream @ [EndMarker], closed = True, errored = None\<rparr>"
  by (auto simp: start_def Let_def forAwait_eq writeChatCompletionEnd_def close_def
      newController_def)

lemma start_with_calls_on_plain_arguments:
  assumes "calls \<noteq> []" and "\<forall>c \<in> set calls. plainKeys (call_args c)"
  shows "\<exists>tcs.
     start h stream (Some calls) newController =
       \<lparr>enqueued = map (Chunk \<circ> textChunk) stream @
          [Chunk \<lparr>choices = [\<lparr>delta = \<lparr>d_role = ''assistant'', d_content = [],
                                       tool_calls = Some tcs\<rparr>\<rparr>]\<rparr>,
           EndMarker],
        closed = True, errored = None\<rparr> \<and>
     length tcs = length calls \<and>
     (\<forall>ix<length calls. \<exists>args.
        replaceNewlinesInObject (call_args (calls ! ix)) = Inr args \<and>
        normalised (call_args (calls ! ix)) args \<and>
        tcs ! ix =
          \<lparr>index = ix, tc_id = numberToString ix,
           tc_function = \<lparr>tcf_name = call_name (calls ! ix),
                          tcf_arguments = JSON_stringify h args\<rparr>\<rparr> \<and>
        tc_id (tcs ! ix) \<noteq> [] \<and> set (tc_id (tcs ! ix)) \<subseteq> set ''0123456789'' \<and>
        (hd (tc_id (tcs ! ix)) = CHR ''0'' \<longrightarrow> ix = 0) \<and>
        decimalValue (tc_id (tcs ! ix)) = ix)"
proof -
  have "\<forall>x \<in> set (enumerate 0 calls). \<exists>y. toolCallOf h x = Inr y"
  proof
    fix x assume "x \<in> set (enumerate 0 calls)"
    then have "fst x < length calls" and "calls ! fst x = snd x"
      by (simp_all add: in_set_enumerate_eq)
    then have "snd x \<in> set calls"
      by (metis nth_mem)
    then obtain ix c where x: "x = (ix, c)" and "c \<in> set calls"
      by (cases x) auto
    with assms(2) have "plainKeys (call_args c)" by simp
    from replaceNewlinesInObject_normalised(1) [OF this] x
    show "\<exists>y. toolCallOf h x = Inr y"
      by (auto simp: toolCallOf_def)
  qed
  from mapThrowing_total [OF this] obtain tcs where
    tcs: "mapThrowing (toolCallOf h) (enumerate 0 calls) = Inr tcs"
    by blast
  from mapThrowing_nth [OF tcs] have len: "length tcs = length calls"
    and nth: "\<forall>i<length calls. toolCallOf h (enumerate 0 calls ! i) = Inr (tcs ! i)"
    by simp_all
  have st: "start h stream (Some calls) newController =
       \<lparr>enqueued = map (Chunk \<circ> textChunk) stream @
          [Chunk \<lparr>choices = [\<lparr>delta = \<lparr>d_role = ''assistant'', d_content = [],
                                       tool_calls = Some tcs\<rparr>\<rparr>]\<rparr>,
           EndMarker],
        closed = True, errored = None\<rparr>"
    using assms(1) tcs
    by (simp add: start_def Let_def toolCallChunk_def forAwait_eq writeChatCompletionChunk_def
        writeChatCompletionEnd_def close_def newController_def)
  have each: "\<forall>ix<length calls. \<exists>args.
        replaceNewlinesInObject (call_args (calls ! ix)) = Inr args \<and>
        normalised (call_args (calls ! ix)) args \<and>
        tcs ! ix =
          \<lparr>index = ix, tc_id = numberToString ix,
           tc_function = \<lparr>tcf_name = call_name (calls ! ix),
                          tcf_arguments = JSON_stringify h args\<rparr>\<rparr> \<and>
        tc_id (tcs ! ix) \<noteq> [] \<and> set (tc_id (tcs ! ix)) \<subseteq> set ''0123456789'' \<and>
        (hd (tc_id (tcs ! ix)) = CHR ''0'' \<longrightarrow> ix = 0) \<and>
        decimalValue (tc_id (tcs ! ix)) = ix"
  proof (intro allI impI)
    fix ix assume ix: "ix < length calls"
    with assms(2) have "plainKeys (call_args (calls ! ix))" by simp
    from replaceNewlinesInObject_normalised(1) [OF this] obtain args where
      a: "replaceNewlinesInObject (call_args (calls ! ix)) = Inr args"
      and n: "normalised (call_args (calls ! ix)) args"
      by blast
    from nth ix have "toolCallOf h (ix, calls ! ix) = Inr (tcs ! ix)"
      by (simp add: nth_enumerate_eq)
    with a have t: "tcs ! ix =
          \<lparr>index = ix, tc_id = numberToString ix,
           tc_function = \<lparr>tcf_name = call_name (calls ! ix),
                          tcf_arguments = JSON_stringify h args\<rparr>\<rparr>"
      by (simp add: toolCallOf_def)
    then have id: "tc_id (tcs ! ix) = numberToString ix" by simp
    show "\<exists>args.
        replaceNewlinesInObject (call_args (calls ! ix)) = Inr args \<and>
        normalised (call_args (calls ! ix)) args \<and>
        tcs ! ix =
          \<lparr>index = ix, tc_id = numberToString ix,
           tc_function = \<lparr>tcf_name = call_name (calls ! ix),
                          tcf_arguments = JSON_stringify h args\<rparr>\<rparr> \<and>
        tc_id (tcs ! ix) \<noteq> [] \<and> set (tc_id (tcs ! ix)) \<subseteq> set ''0123456789'' \<and>
        (hd (tc_id (tcs ! ix)) = CHR ''0'' \<longrightarrow> ix = 0) \<and>
        decimalValue (tc_id (tcs ! ix)) = ix"
      using a n t numberToString_nonempty [of ix] numberToString_digits [of ix]
        numberToString_leading_zero [of ix] decimalValue_numberToString [of ix]
      unfolding id by blast
  qed
  from st len each show ?thesis by blast
qed


lemma replaceNewlinesInObject_example:
  "replaceNewlinesInObject (call_args newlineCall) =
     Inr (JObj [(''q'', JStr (''a'' @ [CHR 0x0A] @ ''b'' @ [CHR 0x0A])),
                (''list'', JArr [JStr [CHR 0x0A], JNum 1])])"
  by (simp add: newlineCall_def replaceNewlinesInObject.simps replaceAll.simps
      escapedNewline_def backslash_def newline_def)

lemma replaceNewlinesInObject_proto_example:
  "replaceNewlinesInObject (JObj [(''__proto__'', JNum 1), (''q'', JStr ''x'')]) =
     Inr (JObj [(''q'', JStr ''x'')])"
  by (simp add: replaceNewlinesInObject.simps replaceAll.simps
      escapedNewline_def backslash_def newline_def)

lemma start_lookup_example:
  \<open>start testHost [] (Some [lookupCall]) newController =
     \<lparr>enqueued =
        [Chunk \<lparr>choices = [\<lparr>delta = \<lparr>d_role = ''assistant'', d_content = [],
           tool_calls = Some [\<lparr>index = 0, tc_id = ''0'',
             tc_function = \<lparr>tcf_name = ''lookup'', tcf_arguments = ''{"q":"x"}''\<rparr>\<rparr>]\<rparr>\<rparr>]\<rparr>,
         EndMarker],
      closed = True, errored = None\<rparr>\<close>
  by (simp add: start_def Let_def toolCallChunk_def toolCallOf_def lookupCall_def
      replaceNewlinesInObject.simps replaceAll.simps escapedNewline_def numberToString.simps
      writeChatCompletionChunk_def writeChatCompletionEnd_def close_def newController_def
      testHost_def testStringify_def)

section \<open>The claims\<close>

text \<open>
  C1. The claim: the history handed to the chat session, before the system instruction
  is added for the first-generation model, is the transcoding of the list without its
  first and without its last element, so the first message is never in it. The code
  transcodes \<^verbatim>\<open>messages.slice(0, -1)\<close> before \<^verbatim>\<open>messages.shift()\<close> runs: on the list
  [system "S", user "Hi"] the history opens with the transcoding of the system message,
  and for \<^verbatim>\<open>gemini-pro\<close> the system instruction follows it as a second turn, while the
  transcoding of the list without its first and last element is empty.
\<close>

theorem getResponse_history_holds_first_message:
  "getResponse h ''gemini-pro'' [systemS, userHi] None =
     \<lparr>messagesAfter = [userHi],
      startChat = Some
        \<lparr>history =
           [\<lparr>c_role = ''user'',
             parts = [Text ''THE FOLLOWING MESSAGE IS NOT A USER MESSAGE. IT IS A SYSTEM MESSAGE: S'']\<rparr>,
            \<lparr>c_role = ''user'', parts = [Text (trim h ''S'')]\<rparr>],
         systemInstruction = None,
         tools = []\<rparr>,
      sendMessageStream = Inr [Text ''Hi'']\<rparr> \<and>
   transformMessages h (butlast (tl [systemS, userHi])) = Inr []"
  by (simp add: getResponse_def transformMessages_def recognisedRole_def transformMessage_def
      transformTools_def systemS_def userHi_def msg_def)

text \<open>
  C2. A chat session is started exactly when the history and the tools transcode. For
  the model identifiers \<^verbatim>\<open>gemini-pro\<close> and \<^verbatim>\<open>models/gemini-pro\<close> its history is the
  transcoded history followed by one more turn, the user turn that holds the system
  message, and it has no \<open>systemInstruction\<close>; for every other identifier its history is
  the transcoded history, nothing appended, and \<open>systemInstruction\<close> is that user turn.
\<close>

theorem getResponse_places_system_instruction:
  "startChat (getResponse h model messages toolDecls) = Some chat \<longleftrightarrow>
     (\<exists>hist ts.
        transformMessages h (butlast messages) = Inr hist \<and>
        transformTools h (case toolDecls of None \<Rightarrow> [] | Some ds \<Rightarrow> ds) = Inr ts \<and>
        tools chat = ts \<and>
        (if model = ''gemini-pro'' \<or> model = ''models/gemini-pro''
         then history chat =
                hist @ [\<lparr>c_role = ''user'',
                         parts = [Text (case messages of [] \<Rightarrow> [] | m # _ \<Rightarrow> trim h (content m))]\<rparr>] \<and>
              systemInstruction chat = None
         else history chat = hist \<and>
              systemInstruction chat =
                Some \<lparr>c_role = ''user'',
                      parts = [Text (case messages of [] \<Rightarrow> [] | m # _ \<Rightarrow> trim h (content m))]\<rparr>))"
  by (cases chat) (auto simp: getResponse_def Let_def split: sum.splits)

theorem getResponse_places_system_instruction_witness:
  "startChat (getResponse testHost ''gemini-pro'' [systemBeConcise, userHi] None) =
     Some \<lparr>history =
             [\<lparr>c_role = ''user'',
               parts = [Text ''THE FOLLOWING MESSAGE IS NOT A USER MESSAGE. IT IS A SYSTEM MESSAGE: Be concise'']\<rparr>,
              \<lparr>c_role = ''user'', parts = [Text ''Be concise'']\<rparr>],
           systemInstruction = None, tools = []\<rparr> \<and>
   startChat (getResponse testHost ''gemini-1.5-pro-latest'' [systemBeConcise, userHi] None) =
     Some \<lparr>history =
             [\<lparr>c_role = ''user'',
               parts = [Text ''THE FOLLOWING MESSAGE IS NOT A USER MESSAGE. IT IS A SYSTEM MESSAGE: Be concise'']\<rparr>],
           systemInstruction = Some \<lparr>c_role = ''user'', parts = [Text ''Be concise'']\<rparr>,
           tools = []\<rparr>"
proof -
  have hist: "transformMessages testHost (butlast [systemBeConcise, userHi]) =
      Inr [\<lparr>c_role = ''user'',
            parts = [Text ''THE FOLLOWING MESSAGE IS NOT A USER MESSAGE. IT IS A SYSTEM MESSAGE: Be concise'']\<rparr>]"
    by (simp add: transformMessages_def recognisedRole_def transformMessage_def
        systemBeConcise_def sample_defs)
  have tls: "transformTools testHost (case None of None \<Rightarrow> [] | Some ds \<Rightarrow> ds) = Inr []"
    by (simp add: transformTools_def)
  have trm: "trim testHost (content systemBeConcise) = ''Be concise''"
    by (simp add: systemBeConcise_def sample_defs whitespace_def)
  show ?thesis
    using hist tls trm
      getResponse_places_system_instruction [of testHost "''gemini-pro''" "[systemBeConcise, userHi]" None]
      getResponse_places_system_instruction [of testHost "''gemini-1.5-pro-latest''" "[systemBeConcise, userHi]" None]
    by simp
qed

text \<open>
  C3. The claim: on every run, when the aggregated response reports one or more function
  calls, exactly one more chunk is written after the text chunks, with one entry for
  each call, and the end marker is the last record written before the stream closes.
  \<open>replaceNewlinesInObject\<close> calls \<^verbatim>\<open>obj.hasOwnProperty(key)\<close> on the argument object
  itself: for a call whose arguments are \<^verbatim>\<open>{hasOwnProperty: true}\<close> that property is
  not a function and the call throws. For every host, the two text chunks are written
  and then nothing else: no chunk for the tool calls, no end marker, and the stream is
  not closed.
\<close>

theorem start_throws_on_own_hasOwnProperty:
  "start h [''Hel'', ''lo''] (Some [shadowingCall]) newController =
     \<lparr>enqueued = [Chunk (textChunk ''Hel''), Chunk (textChunk ''lo'')],
      closed = False,
      errored = Some TypeError\<rparr>"
  by (simp add: start_def Let_def toolCallChunk_def toolCallOf_def shadowingCall_def
      replaceNewlinesInObject.simps writeChatCompletionChunk_def newController_def)

text \<open>
  C4. The claim: every \<^verbatim>\<open>type\<close> string in \<^verbatim>\<open>parameters.properties\<close>, at any depth, is
  upper-cased in the result. \<open>transformTool\<close> calls \<open>transformProperties\<close> on
  \<^verbatim>\<open>parameters\<close> itself, so the loop takes the keys \<^verbatim>\<open>type\<close> and \<^verbatim>\<open>properties\<close> of the
  schema for property names: under \<^verbatim>\<open>type\<close> it finds a string, which has no \<^verbatim>\<open>type\<close>, and
  under \<^verbatim>\<open>properties\<close> the property map, which has a \<^verbatim>\<open>type\<close> only if a property is
  called so. On the schema of a tool with one string property \<^verbatim>\<open>city\<close> nothing is
  upper-cased, whatever \<open>toUpperCase\<close> does; the result is the single-element
  \<open>functionDeclarations\<close> with the name, the description and the parameters as given.
\<close>

theorem transformTool_leaves_schema_types:
  "transformTool h weatherTool =
     Inr \<lparr>functionDeclarations =
           [\<lparr>fd_name = ''get_weather'', fd_description = ''Weather of a city'',
             fd_parameters = Some
               (JObj [(''type'', JStr ''object''),
                      (''properties'', JObj [(''city'', JObj [(''type'', JStr ''string'')])])])\<rparr>]\<rparr>"
  by (simp add: transformTool_def weatherTool_def weatherParameters_def
      transformProperties.simps transformProperty.simps upperCaseType_def)

text \<open>
  C5, as amended. For an assistant message without a function call, \<open>transformMessage\<close>
  returns the role \<^verbatim>\<open>model\<close> and one text part. The text is the content with the first
  occurrence of the three characters backslash, backslash, n replaced by one newline
  character; what follows that occurrence, later occurrences included, is unchanged, and
  a content without an occurrence is unchanged.
\<close>

theorem transformMessage_assistant_text:
  assumes "role m = ''assistant''" and "function_call m = None"
  shows "\<exists>t. transformMessage h m = Inr \<lparr>c_role = ''model'', parts = [Text t]\<rparr> \<and>
     ((\<forall>j. \<not> occursAt [CHR 0x5C, CHR 0x5C, CHR ''n''] (content m) j) \<longrightarrow> t = content m) \<and>
     (\<forall>i. occursAt [CHR 0x5C, CHR 0x5C, CHR ''n''] (content m) i \<and>
          (\<forall>j<i. \<not> occursAt [CHR 0x5C, CHR 0x5C, CHR ''n''] (content m) j) \<longrightarrow>
          t = take i (content m) @ [CHR 0x0A] @ drop (i + 3) (content m))"
proof -
  have p: "escapedNewline = [CHR 0x5C, CHR 0x5C, CHR ''n'']"
    by (simp add: escapedNewline_def backslash_def)
  have ne: "[CHR 0x5C, CHR 0x5C, CHR ''n''] \<noteq> []"
    by simp
  from assms have tm: "transformMessage h m =
      Inr \<lparr>c_role = ''model'',
           parts = [Text (replaceFirst [CHR 0x5C, CHR 0x5C, CHR ''n''] [CHR 0x0A] (content m))]\<rparr>"
    by (simp add: transformMessage_def p newline_def)
  have a: "(\<forall>j. \<not> occursAt [CHR 0x5C, CHR 0x5C, CHR ''n''] (content m) j) \<longrightarrow>
      replaceFirst [CHR 0x5C, CHR 0x5C, CHR ''n''] [CHR 0x0A] (content m) = content m"
    using replaceFirst_no_occurrence [OF ne] by blast
  have b: "\<forall>i. occursAt [CHR 0x5C, CHR 0x5C, CHR ''n''] (content m) i \<and>
          (\<forall>j<i. \<not> occursAt [CHR 0x5C, CHR 0x5C, CHR ''n''] (content m) j) \<longrightarrow>
          replaceFirst [CHR 0x5C, CHR 0x5C, CHR ''n''] [CHR 0x0A] (content m) =
            take i (content m) @ [CHR 0x0A] @ drop (i + 3) (content m)"
  proof (intro allI impI)
    fix i
    assume o: "occursAt [CHR 0x5C, CHR 0x5C, CHR ''n''] (content m) i \<and>
          (\<forall>j<i. \<not> occursAt [CHR 0x5C, CHR 0x5C, CHR ''n''] (content m) j)"
    from replaceFirst_at_first_occurrence [OF ne, of "content m" i "[CHR 0x0A]"] o
    show "replaceFirst [CHR 0x5C, CHR 0x5C, CHR ''n''] [CHR 0x0A] (content m) =
            take i (content m) @ [CHR 0x0A] @ drop (i + 3) (content m)"
      by (simp add: numeral_3_eq_3)
  qed
  from tm a b show ?thesis by blast
qed

theorem transformMessage_assistant_text_witness:
  "role assistantTwice = ''assistant'' \<and> function_call assistantTwice = None \<and>
   occursAt [CHR 0x5C, CHR 0x5C, CHR ''n''] (content assistantTwice) 1 \<and>
   occursAt [CHR 0x5C, CHR 0x5C, CHR ''n''] (content assistantTwice) 5 \<and>
   transformMessage testHost assistantTwice =
     Inr \<lparr>c_role = ''model'',
          parts = [Text (''a'' @ [CHR 0x0A] @ ''b'' @ [CHR 0x5C, CHR 0x5C, CHR ''n''])]\<rparr> \<and>
   transformMessage testHost assistantHi = Inr \<lparr>c_role = ''model'', parts = [Text ''Hi'']\<rparr>"
proof -
  have r: "role assistantTwice = ''assistant''" and f: "function_call assistantTwice = None"
    by (simp_all add: assistantTwice_def msg_def)
  have o1: "occursAt [CHR 0x5C, CHR 0x5C, CHR ''n''] (content assistantTwice) 1"
    by (simp add: occursAt_def assistantTwice_def msg_def)
  have o5: "occursAt [CHR 0x5C, CHR 0x5C, CHR ''n''] (content assistantTwice) 5"
    by (simp add: occursAt_def assistantTwice_def msg_def)
  have o0: "\<forall>j<1. \<not> occursAt [CHR 0x5C, CHR 0x5C, CHR ''n''] (content assistantTwice) j"
    by (simp add: occursAt_def assistantTwice_def msg_def)
  from transformMessage_assistant_text [OF r f, of testHost] obtain t where
    tm: "transformMessage testHost assistantTwice = Inr \<lparr>c_role = ''model'', parts = [Text t]\<rparr>"
    and first: "\<forall>i. occursAt [CHR 0x5C, CHR 0x5C, CHR ''n''] (content assistantTwice) i \<and>
          (\<forall>j<i. \<not> occursAt [CHR 0x5C, CHR 0x5C, CHR ''n''] (content assistantTwice) j) \<longrightarrow>
          t = take i (content assistantTwice) @ [CHR 0x0A] @ drop (i + 3) (content assistantTwice)"
    by blast
  from first o1 o0 have
    "t = take 1 (content assistantTwice) @ [CHR 0x0A] @ drop (1 + 3) (content assistantTwice)"
    by blast
  then have "t = ''a'' @ [CHR 0x0A] @ ''b'' @ [CHR 0x5C, CHR 0x5C, CHR ''n'']"
    by (simp add: assistantTwice_def msg_def)
  with tm have twice: "transformMessage testHost assistantTwice =
     Inr \<lparr>c_role = ''model'',
          parts = [Text (''a'' @ [CHR 0x0A] @ ''b'' @ [CHR 0x5C, CHR 0x5C, CHR ''n''])]\<rparr>"
    by simp
  have r': "role assistantHi = ''assistant''" and f': "function_call assistantHi = None"
    by (simp_all add: assistantHi_def msg_def)
  have no: "\<forall>j. \<not> occursAt [CHR 0x5C, CHR 0x5C, CHR ''n''] (content assistantHi) j"
  proof (intro allI notI)
    fix j
    assume "occursAt [CHR 0x5C, CHR 0x5C, CHR ''n''] (content assistantHi) j"
    then have "length (take 3 (drop j ''Hi'')) = length [CHR 0x5C, CHR 0x5C, CHR ''n'']"
      by (simp add: occursAt_def assistantHi_def msg_def)
    then show False by simp
  qed
  from transformMessage_assistant_text [OF r' f', of testHost] obtain u where
    um: "transformMessage testHost assistantHi = Inr \<lparr>c_role = ''model'', parts = [Text u]\<rparr>"
    and none: "(\<forall>j. \<not> occursAt [CHR 0x5C, CHR 0x5C, CHR ''n''] (content assistantHi) j) \<longrightarrow>
          u = content assistantHi"
    by blast
  from none no have "u = ''Hi''"
    by (simp add: assistantHi_def msg_def)
  with um twice r f o1 o5 show ?thesis by simp
qed

text \<open>
  The claim as stated fails: the two characters backslash, n are not replaced.
\<close>

theorem transformMessage_two_character_escape_counterexample:
  "role assistantBackslashN = ''assistant'' \<and> function_call assistantBackslashN = None \<and>
   transformMessage testHost assistantBackslashN =
     Inr \<lparr>c_role = ''model'', parts = [Text [CHR 0x5C, CHR ''n'']]\<rparr> \<and>
   replaceFirst [CHR 0x5C, CHR ''n''] [CHR 0x0A] (content assistantBackslashN) = [CHR 0x0A] \<and>
   transformMessage testHost assistantBackslashN \<noteq>
     Inr \<lparr>c_role = ''model'',
          parts = [Text (replaceFirst [CHR 0x5C, CHR ''n''] [CHR 0x0A] (content assistantBackslashN))]\<rparr>"
  by (simp add: transformMessage_def assistantBackslashN_def msg_def escapedNewline_def
      backslash_def newline_def)

text \<open>
  C6, as amended. \<open>start\<close> writes one chunk for every fragment of the upstream stream, an
  empty fragment included, in upstream order, with \<open>role = assistant\<close> and the fragment as
  content: these are the first records written, as many as there are fragments, and
  every later record is the end marker or the chunk of the tool calls.
\<close>

theorem start_writes_every_fragment:
  "take (length stream) (enqueued (start h stream functionCalls newController)) =
     map (\<lambda>chunkText.
            Chunk \<lparr>choices = [\<lparr>delta = \<lparr>d_role = ''assistant'', d_content = chunkText,
                                        tool_calls = None\<rparr>\<rparr>]\<rparr>) stream \<and>
   (\<forall>w \<in> set (drop (length stream) (enqueued (start h stream functionCalls newController))).
      w = EndMarker \<or>
      (\<exists>tcs. w = Chunk \<lparr>choices = [\<lparr>delta = \<lparr>d_role = ''assistant'', d_content = [],
                                              tool_calls = Some tcs\<rparr>\<rparr>]\<rparr>))"
proof -
  let ?rest = "case functionCalls of
        None \<Rightarrow> [EndMarker]
      | Some calls \<Rightarrow>
          if calls = [] then [EndMarker]
          else (case toolCallChunk h calls of
                  Inl e \<Rightarrow> []
                | Inr ccChunk \<Rightarrow> [Chunk ccChunk, EndMarker])"
  have e: "enqueued (start h stream functionCalls newController) =
     map (Chunk \<circ> textChunk) stream @ ?rest"
    by (simp add: start_enqueued newController_def)
  have t: "take (length stream) (enqueued (start h stream functionCalls newController)) =
      map (Chunk \<circ> textChunk) stream"
    by (simp add: e)
  have d: "drop (length stream) (enqueued (start h stream functionCalls newController)) = ?rest"
    by (simp add: e)
  have m: "map (Chunk \<circ> textChunk) stream =
     map (\<lambda>chunkText.
            Chunk \<lparr>choices = [\<lparr>delta = \<lparr>d_role = ''assistant'', d_content = chunkText,
                                        tool_calls = None\<rparr>\<rparr>]\<rparr>) stream"
    by (simp add: textChunk_def)
  have r: "\<forall>w \<in> set ?rest.
      w = EndMarker \<or>
      (\<exists>tcs. w = Chunk \<lparr>choices = [\<lparr>delta = \<lparr>d_role = ''assistant'', d_content = [],
                                              tool_calls = Some tcs\<rparr>\<rparr>]\<rparr>)"
    using toolCallChunk_tool_calls [of h]
    by (cases functionCalls) (auto split: sum.splits)
  from t m have "take (length stream) (enqueued (start h stream functionCalls newController)) =
     map (\<lambda>chunkText.
            Chunk \<lparr>choices = [\<lparr>delta = \<lparr>d_role = ''assistant'', d_content = chunkText,
                                        tool_calls = None\<rparr>\<rparr>]\<rparr>) stream"
    by simp
  with r d show ?thesis by simp
qed

theorem start_writes_every_fragment_witness:
  "take (length [[], ''a'']) (enqueued (start testHost [[], ''a''] None newController)) =
     [Chunk \<lparr>choices = [\<lparr>delta = \<lparr>d_role = ''assistant'', d_content = [],
                                  tool_calls = None\<rparr>\<rparr>]\<rparr>,
      Chunk \<lparr>choices = [\<lparr>delta = \<lparr>d_role = ''assistant'', d_content = ''a'',
                                  tool_calls = None\<rparr>\<rparr>]\<rparr>] \<and>
   drop (length [[], ''a'']) (enqueued (start testHost [[], ''a''] None newController)) =
     [EndMarker]"
proof -
  have d: "drop (length [[], ''a'']) (enqueued (start testHost [[], ''a''] None newController)) =
      [EndMarker]"
    by (simp add: start_enqueued newController_def)
  from start_writes_every_fragment [of "[[], ''a'']" testHost None] d
  show ?thesis by simp
qed

text \<open>
  The claim as stated fails: for the fragments "" and "a" a chunk with empty content is
  written first.
\<close>

theorem start_writes_empty_fragment_counterexample:
  "enqueued (start testHost [[], ''a''] None newController) =
     [Chunk \<lparr>choices = [\<lparr>delta = \<lparr>d_role = ''assistant'', d_content = [],
                                  tool_calls = None\<rparr>\<rparr>]\<rparr>,
      Chunk \<lparr>choices = [\<lparr>delta = \<lparr>d_role = ''assistant'', d_content = ''a'',
                                  tool_calls = None\<rparr>\<rparr>]\<rparr>,
      EndMarker] \<and>
   enqueued (start testHost [[], ''a''] None newController) \<noteq>
     map (Chunk \<circ> textChunk) (filter (\<lambda>chunkText. chunkText \<noteq> []) [[], ''a'']) @ [EndMarker]"
  by (simp add: start_def Let_def writeChatCompletionChunk_def writeChatCompletionEnd_def
      close_def textChunk_def newController_def)

text \<open>
  C7. For every sequence of messages, \<open>transformMessages\<close> returns the transcodings of
  exactly the messages whose role is user, assistant, function or system, in the order
  of the input; a message with another role is dropped, and no other message is. The
  call returns \<open>cs\<close> exactly when the kept messages transcode, one by one and in order,
  to the elements of \<open>cs\<close>; it throws only when \<open>transformMessage\<close> throws on a kept
  message (an assistant function call whose arguments are not JSON).
\<close>

theorem transformMessages_keeps_recognised_in_order:
  "transformMessages h messages = Inr cs \<longleftrightarrow>
     map (transformMessage h) (filter recognisedRole messages) = map Inr cs"
  by (simp add: transformMessages_def mapThrowing_Inr_iff)

theorem transformMessages_keeps_recognised_in_order_witness:
  "filter recognisedRole [systemS, toolX, userHi] = [systemS, userHi] \<and>
   transformMessages testHost [systemS, toolX, userHi] =
     Inr [\<lparr>c_role = ''user'',
           parts = [Text ''THE FOLLOWING MESSAGE IS NOT A USER MESSAGE. IT IS A SYSTEM MESSAGE: S'']\<rparr>,
          \<lparr>c_role = ''user'', parts = [Text ''Hi'']\<rparr>]"
proof -
  have f: "filter recognisedRole [systemS, toolX, userHi] = [systemS, userHi]"
    by (simp add: recognisedRole_def sample_defs)
  have "map (transformMessage testHost) [systemS, userHi] =
     map Inr [\<lparr>c_role = ''user'',
           parts = [Text ''THE FOLLOWING MESSAGE IS NOT A USER MESSAGE. IT IS A SYSTEM MESSAGE: S'']\<rparr>,
          \<lparr>c_role = ''user'', parts = [Text ''Hi'']\<rparr>]"
    by (simp add: transformMessage_def sample_defs)
  with f show ?thesis
    using transformMessages_keeps_recognised_in_order [of testHost "[systemS, toolX, userHi]"]
    by simp
qed

text \<open>
  C8, as amended. \<open>transformMessage\<close> throws \<^verbatim>\<open>Error("Invalid message role")\<close> on every
  message whose role is not user, assistant, function or system. In \<open>getResponse\<close> only
  the last message goes through \<open>transformMessage\<close> unfiltered: when its role is not
  recognised nothing is sent, and if the chat session was started the exception is that
  error. Anywhere else in a list, \<open>transformMessages\<close> drops such a message without an
  error.
\<close>

theorem unrecognised_role:
  assumes "\<not> recognisedRole m"
  shows "transformMessage h m = Inl (Error ''Invalid message role'') \<and>
     transformMessages h (xs @ m # ys) = transformMessages h (xs @ ys) \<and>
     (\<forall>ps. sendMessageStream (getResponse h model (xs @ [m]) toolDecls) \<noteq> Inr ps) \<and>
     (startChat (getResponse h model (xs @ [m]) toolDecls) \<noteq> None \<longrightarrow>
        sendMessageStream (getResponse h model (xs @ [m]) toolDecls) =
          Inl (Error ''Invalid message role''))"
proof -
  from assms have tm: "transformMessage h m = Inl (Error ''Invalid message role'')"
    by (simp add: transformMessage_def recognisedRole_def)
  from assms have drop: "transformMessages h (xs @ m # ys) = transformMessages h (xs @ ys)"
    by (simp add: transformMessages_def)
  have "\<forall>ps. sendMessageStream (getResponse h model (xs @ [m]) toolDecls) \<noteq> Inr ps"
    using tm by (simp add: getResponse_def Let_def split: sum.splits)
  moreover have "startChat (getResponse h model (xs @ [m]) toolDecls) \<noteq> None \<longrightarrow>
        sendMessageStream (getResponse h model (xs @ [m]) toolDecls) =
          Inl (Error ''Invalid message role'')"
    using tm by (simp add: getResponse_def Let_def split: sum.splits)
  ultimately show ?thesis using tm drop by blast
qed

theorem unrecognised_role_witness:
  "\<not> recognisedRole toolX \<and>
   transformMessage testHost toolX = Inl (Error ''Invalid message role'') \<and>
   transformMessages testHost ([systemS] @ toolX # [userHi]) = transformMessages testHost ([systemS] @ [userHi]) \<and>
   sendMessageStream (getResponse testHost ''gemini-pro'' ([systemS] @ [toolX]) None) =
     Inl (Error ''Invalid message role'')"
proof -
  have r: "\<not> recognisedRole toolX"
    by (simp add: recognisedRole_def sample_defs)
  have s: "startChat (getResponse testHost ''gemini-pro'' ([systemS] @ [toolX]) None) \<noteq> None"
    by (simp add: getResponse_def transformMessages_def recognisedRole_def transformMessage_def
        transformTools_def sample_defs)
  from unrecognised_role [OF r, of testHost "[systemS]" "[userHi]" "''gemini-pro''" None] r s
  show ?thesis by blast
qed

text \<open>
  The claim as stated fails: a message with the role \<^verbatim>\<open>tool\<close> between the system message
  and the last message does not abort the request, which goes on to the send.
\<close>

theorem unrecognised_role_in_history_counterexample:
  "\<not> recognisedRole toolX \<and>
   transformMessages testHost [toolX] = Inr [] \<and>
   sendMessageStream (getResponse testHost ''gemini-pro'' [systemS, toolX, userHi] None) =
     Inr [Text ''Hi'']"
  by (simp add: getResponse_def transformMessages_def recognisedRole_def transformMessage_def
      transformTools_def sample_defs)

text \<open>
  C9, as amended. When \<open>getResponse\<close> reaches the send, the caller's array has lost its
  first element and nothing else: the input is some message followed by the array as
  the call leaves it.
\<close>

theorem getResponse_shifts_messages:
  assumes "sendMessageStream (getResponse h model messages toolDecls) = Inr ps"
  shows "\<exists>m. messages = m # messagesAfter (getResponse h model messages toolDecls)"
proof -
  from getResponse_sent [OF assms] obtain hist m rest
    where "transformMessages h (butlast messages) = Inr hist" and "messages = m # rest"
    by (cases messages) auto
  then show ?thesis
    by (simp add: getResponse_messagesAfter)
qed

theorem getResponse_shifts_messages_witness:
  "sendMessageStream (getResponse testHost ''gemini-pro'' [systemS, userHi] None) = Inr [Text ''Hi''] \<and>
   (\<exists>m. [systemS, userHi] = m # messagesAfter (getResponse testHost ''gemini-pro'' [systemS, userHi] None))"
proof -
  have s: "sendMessageStream (getResponse testHost ''gemini-pro'' [systemS, userHi] None) = Inr [Text ''Hi'']"
    by (simp add: getResponse_def transformMessages_def recognisedRole_def transformMessage_def
        transformTools_def sample_defs)
  from getResponse_shifts_messages [OF s] s show ?thesis by simp
qed

text \<open>
  The claim as stated fails: after the call on [system "S", user "Hi"] the array holds
  one element.
\<close>

theorem getResponse_mutates_messages_counterexample:
  "sendMessageStream (getResponse testHost ''gemini-pro'' [systemS, userHi] None) = Inr [Text ''Hi''] \<and>
   messagesAfter (getResponse testHost ''gemini-pro'' [systemS, userHi] None) = [userHi] \<and>
   messagesAfter (getResponse testHost ''gemini-pro'' [systemS, userHi] None) \<noteq> [systemS, userHi]"
  by (simp add: getResponse_def transformMessages_def recognisedRole_def transformMessage_def
      transformTools_def sample_defs)

text \<open>
  C10. On a list of exactly one message, with tools that transcode, the prior history is
  empty, the trimmed content of the message is the system instruction (a turn of the
  history for the first-generation model, the \<open>systemInstruction\<close> otherwise), and the
  same message is transcoded as the current turn: what is sent is the parts of its
  transcoding. The list of one element raises no exception of its own; the only one
  possible is the one that transcoding the message itself throws.
\<close>

theorem getResponse_single_message:
  assumes "transformTools h (case toolDecls of None \<Rightarrow> [] | Some ds \<Rightarrow> ds) = Inr ts"
  shows "transformMessages h (butlast [m]) = Inr [] \<and>
     getResponse h model [m] toolDecls =
       \<lparr>messagesAfter = [],
        startChat = Some
          \<lparr>history =
             (if model = ''gemini-pro'' \<or> model = ''models/gemini-pro''
              then [\<lparr>c_role = ''user'', parts = [Text (trim h (content m))]\<rparr>] else []),
           systemInstruction =
             (if model = ''gemini-pro'' \<or> model = ''models/gemini-pro''
              then None else Some \<lparr>c_role = ''user'', parts = [Text (trim h (content m))]\<rparr>),
           tools = ts\<rparr>,
        sendMessageStream =
          (case transformMessage h m of Inl e \<Rightarrow> Inl e | Inr c \<Rightarrow> Inr (parts c))\<rparr>"
  using assms by (simp add: getResponse_def transformMessages_def)

theorem getResponse_single_message_witness:
  "transformTools testHost (case None of None \<Rightarrow> [] | Some ds \<Rightarrow> ds) = Inr [] \<and>
   getResponse testHost ''gemini-1.5-pro-latest'' [userHi] None =
     \<lparr>messagesAfter = [],
      startChat = Some
        \<lparr>history = [],
         systemInstruction = Some \<lparr>c_role = ''user'', parts = [Text ''Hi'']\<rparr>,
         tools = []\<rparr>,
      sendMessageStream = Inr [Text ''Hi'']\<rparr>"
proof -
  have tls: "transformTools testHost (case None of None \<Rightarrow> [] | Some ds \<Rightarrow> ds) = Inr []"
    by (simp add: transformTools_def)
  have tm: "transformMessage testHost userHi = Inr \<lparr>c_role = ''user'', parts = [Text ''Hi'']\<rparr>"
    by (simp add: transformMessage_def sample_defs)
  have trm: "trim testHost (content userHi) = ''Hi''"
    by (simp add: sample_defs whitespace_def)
  show ?thesis
    using tls tm trm
      getResponse_single_message [OF tls, of userHi "''gemini-1.5-pro-latest''"]
    by simp
qed

end
